theory Spec2Isabelle
  imports Complex_Main
begin

section \<open>Debt snowball payment schedule\<close>

text \<open>
  The schedule engine of \<^verbatim>\<open>cc_paydown_planner.py\<close>: the class \<^verbatim>\<open>CreditCard\<close>,
  \<^verbatim>\<open>calculate_interest\<close> and \<^verbatim>\<open>create_payment_schedule\<close>.

  Python floats are idealised as real numbers: every arithmetic operation of the source
  is the exact operation here, so rounding, infinities and NaN are outside the model.
  The month counter and the length of the schedule are natural numbers.
\<close>

subsection \<open>Data\<close>

text \<open>
  The attributes of a \<^verbatim>\<open>CreditCard\<close> object (the attribute \<^verbatim>\<open>notes\<close> is \<open>card_notes\<close>
  here).
\<close>

record CreditCard =
  name :: string
  balance :: real
  minimum_payment :: real
  due_date :: string
  apr :: real
  credit_limit :: real
  card_notes :: string
  monthly_interest_rate :: real

text \<open>\<^verbatim>\<open>CreditCard.__init__\<close>: the monthly rate is derived from the APR once.\<close>

definition CreditCard_init ::
  "string \<Rightarrow> real \<Rightarrow> real \<Rightarrow> string \<Rightarrow> real \<Rightarrow> real \<Rightarrow> string \<Rightarrow> CreditCard" where
  "CreditCard_init n b m d a l t =
     \<lparr>name = n, balance = b, minimum_payment = m, due_date = d, apr = a,
      credit_limit = l, card_notes = t, monthly_interest_rate = a / 100 / 12\<rparr>"

text \<open>
  One dictionary of \<^verbatim>\<open>remaining_cards\<close>, the per-run working copy of a card. Its keys
  \<^verbatim>\<open>name\<close>, \<^verbatim>\<open>balance\<close>, \<^verbatim>\<open>minimum\<close>, \<^verbatim>\<open>apr\<close>, \<^verbatim>\<open>monthly_rate\<close> carry the
  prefix \<open>rc_\<close> to keep them apart from the attributes of \<open>CreditCard\<close>.
\<close>

record remaining_card =
  rc_name :: string
  rc_balance :: real
  rc_minimum :: real
  rc_apr :: real
  rc_monthly_rate :: real

text \<open>One dictionary of \<^verbatim>\<open>month_data["payments"]\<close>.\<close>

record payment_record =
  card :: string
  payment :: real
  interest :: real
  principal :: real
  balance_before :: real
  balance_after :: real

text \<open>
  The dictionary \<^verbatim>\<open>month_data\<close>. An entry \<^verbatim>\<open>{"card": .., "balance": ..}\<close> of
  \<^verbatim>\<open>balances_after\<close> is a pair.
\<close>

record month_data =
  month :: nat
  payments :: "payment_record list"
  balances_after :: "(string \<times> real) list"
  total_paid :: real
  interest_paid :: real

text \<open>The dictionary returned on success.\<close>

record schedule_result =
  schedule :: "month_data list"
  total_months :: nat
  total_interest_paid :: real
  total_amount_paid :: real

text \<open>
  The two dictionaries \<^verbatim>\<open>{"error": message}\<close>. The first message is
  \<^verbatim>\<open>Total monthly payment ($..) is less than minimum payments required ($..)\<close>
  and is represented by the two figures it interpolates, the budget and the total of the
  minimum payments; the second is
  \<^verbatim>\<open>Payment schedule exceeds 1000 months. Please check your inputs.\<close>
\<close>

datatype error = BudgetBelowMinimum real real | RunawaySchedule

subsection \<open>Operations\<close>

definition calculate_interest :: "real \<Rightarrow> real \<Rightarrow> real" where
  "calculate_interest bal monthly_rate = bal * monthly_rate"

text \<open>
  The body of the loop \<^verbatim>\<open>for card in remaining_cards\<close> for one card: the payment
  record that is appended and the card with its balance updated.
\<close>

definition minimum_step :: "remaining_card \<Rightarrow> payment_record \<times> remaining_card" where
  "minimum_step c =
     (let interest_charge = calculate_interest (rc_balance c) (rc_monthly_rate c);
          payment0 = rc_minimum c;
          principal0 = payment0 - interest_charge;
          principal1 = (if principal0 < 0 then 0 else principal0);
          payment1 = (if principal0 < 0 then interest_charge else payment0);
          new_balance = max 0 (rc_balance c - principal1)
      in (\<lparr>card = rc_name c, payment = payment1, interest = interest_charge,
           principal = principal1, balance_before = rc_balance c,
           balance_after = new_balance\<rparr>,
          c\<lparr>rc_balance := new_balance\<rparr>))"

text \<open>
  The whole loop over \<^verbatim>\<open>remaining_cards\<close>, in list order, threading \<^verbatim>\<open>month_data\<close>:
  each step appends a record and adds to the two running sums.
\<close>

fun apply_minimums ::
  "remaining_card list \<Rightarrow> month_data \<Rightarrow> remaining_card list \<times> month_data" where
  "apply_minimums [] md = ([], md)"
| "apply_minimums (c # cs) md =
     (let r = fst (minimum_step c);
          c' = snd (minimum_step c);
          md' = md\<lparr>payments := payments md @ [r],
                   total_paid := total_paid md + payment r,
                   interest_paid := interest_paid md + interest r\<rparr>;
          res = apply_minimums cs md'
      in (c' # fst res, snd res))"

text \<open>
  The loop \<^verbatim>\<open>for payment_record in month_data["payments"]\<close> with its \<^verbatim>\<open>break\<close>: only
  the first record whose card name equals the target's name is updated.
\<close>

fun update_payment_record ::
  "string \<Rightarrow> real \<Rightarrow> real \<Rightarrow> payment_record list \<Rightarrow> payment_record list" where
  "update_payment_record n extra_applied b [] = []"
| "update_payment_record n extra_applied b (p # ps) =
     (if card p = n
      then p\<lparr>payment := payment p + extra_applied,
             principal := principal p + extra_applied,
             balance_after := b\<rparr> # ps
      else p # update_payment_record n extra_applied b ps)"

text \<open>
  The extra payment. \<^verbatim>\<open>target_card\<close> is the object \<^verbatim>\<open>remaining_cards[0]\<close> itself, so
  the assignment to its balance is an update of the list at index 0.
\<close>

definition apply_extra ::
  "real \<Rightarrow> remaining_card list \<Rightarrow> month_data \<Rightarrow> remaining_card list \<times> month_data" where
  "apply_extra extra_payment remaining_cards md =
     (if extra_payment > 0 \<and> remaining_cards \<noteq> [] then
        (let target_card = hd remaining_cards in
         if rc_balance target_card > 0 then
           (let extra_applied = min extra_payment (rc_balance target_card);
                target' = target_card\<lparr>rc_balance := rc_balance target_card - extra_applied\<rparr>
            in (remaining_cards[0 := target'],
                md\<lparr>payments := update_payment_record (rc_name target') extra_applied
                                  (rc_balance target') (payments md),
                   total_paid := total_paid md + extra_applied\<rparr>))
         else (remaining_cards, md))
      else (remaining_cards, md))"

text \<open>
  One pass of the body of \<^verbatim>\<open>while remaining_cards\<close> up to the removal of the paid-off
  cards: the cards that remain and the finished \<^verbatim>\<open>month_data\<close>.
\<close>

definition run_month ::
  "real \<Rightarrow> nat \<Rightarrow> remaining_card list \<Rightarrow> remaining_card list \<times> month_data" where
  "run_month extra_payment m remaining_cards =
     (let md0 = \<lparr>month = m, payments = [], balances_after = [], total_paid = 0,
                 interest_paid = 0\<rparr>;
          s1 = apply_minimums remaining_cards md0;
          s2 = apply_extra extra_payment (fst s1) (snd s1);
          md3 = (snd s2)\<lparr>balances_after :=
                   balances_after (snd s2) @ map (\<lambda>c. (rc_name c, rc_balance c)) (fst s2)\<rparr>
      in (filter (\<lambda>c. rc_balance c > 0) (fst s2), md3))"

text \<open>
  The loop \<^verbatim>\<open>while remaining_cards\<close>, with the month counter, the schedule so far and
  the running interest total. The check \<^verbatim>\<open>month > 1000\<close> comes after the increment
  and before the loop condition is tested again.
\<close>

function payoff_loop ::
  "real \<Rightarrow> nat \<Rightarrow> remaining_card list \<Rightarrow> month_data list \<Rightarrow> real \<Rightarrow>
   error + schedule_result" where
  "payoff_loop extra_payment m remaining_cards sched tip =
     (if remaining_cards = [] then
        Inr \<lparr>schedule = sched, total_months = length sched, total_interest_paid = tip,
             total_amount_paid = sum_list (map total_paid sched)\<rparr>
      else
        (let s = run_month extra_payment m remaining_cards;
             tip' = tip + interest_paid (snd s);
             sched' = sched @ [snd s];
             m' = m + 1
         in if m' > 1000 then Inl RunawaySchedule
            else payoff_loop extra_payment m' (fst s) sched' tip'))"
  by pat_completeness auto
termination
  by (relation "measure (\<lambda>(e, m, r, s, t). 1001 - m)") auto

text \<open>The dictionary built for one card in the comprehension for \<^verbatim>\<open>remaining_cards\<close>.\<close>

definition working_copy :: "CreditCard \<Rightarrow> remaining_card" where
  "working_copy c =
     \<lparr>rc_name = name c, rc_balance = balance c, rc_minimum = minimum_payment c,
      rc_apr = apr c, rc_monthly_rate = monthly_interest_rate c\<rparr>"

text \<open>
  The values the function binds before its loop: \<^verbatim>\<open>cards_sorted\<close> (the filter and
  the stable sort by balance), \<^verbatim>\<open>total_minimums\<close>, \<^verbatim>\<open>extra_payment\<close> and the
  initial \<^verbatim>\<open>remaining_cards\<close>.
\<close>

definition cards_sorted :: "CreditCard list \<Rightarrow> CreditCard list" where
  "cards_sorted cards = sort_key balance (filter (\<lambda>c. balance c > 0) cards)"

definition total_minimums :: "CreditCard list \<Rightarrow> real" where
  "total_minimums cards = sum_list (map minimum_payment (cards_sorted cards))"

definition extra_payment :: "CreditCard list \<Rightarrow> real \<Rightarrow> real" where
  "extra_payment cards total_monthly_payment = total_monthly_payment - total_minimums cards"

definition initial_remaining :: "CreditCard list \<Rightarrow> remaining_card list" where
  "initial_remaining cards = map working_copy (cards_sorted cards)"

definition create_payment_schedule :: "CreditCard list \<Rightarrow> real \<Rightarrow> error + schedule_result" where
  "create_payment_schedule cards total_monthly_payment =
     (if total_monthly_payment < total_minimums cards
      then Inl (BudgetBelowMinimum total_monthly_payment (total_minimums cards))
      else payoff_loop (extra_payment cards total_monthly_payment) 1
             (initial_remaining cards) [] 0)"

subsection \<open>Derived notions\<close>

text \<open>
  The value of \<^verbatim>\<open>remaining_cards\<close> after \<open>k\<close> passes of the loop body that start at
  month \<open>m\<close>, and the first \<open>n\<close> entries the loop appends to the schedule.
\<close>

fun remaining_at :: "real \<Rightarrow> nat \<Rightarrow> remaining_card list \<Rightarrow> nat \<Rightarrow> remaining_card list" where
  "remaining_at e m rem 0 = rem"
| "remaining_at e m rem (Suc k) = remaining_at e (m + 1) (fst (run_month e m rem)) k"

fun periods :: "real \<Rightarrow> nat \<Rightarrow> remaining_card list \<Rightarrow> nat \<Rightarrow> month_data list" where
  "periods e m rem 0 = []"
| "periods e m rem (Suc n) =
     snd (run_month e m rem) # periods e (m + 1) (fst (run_month e m rem)) n"

text \<open>
  Closed forms of what one pass does to the first card of the list: the amount of extra
  payment it receives, its payment record and its state once the extra payment is applied.
\<close>

definition extra_applied_to :: "real \<Rightarrow> remaining_card \<Rightarrow> real" where
  "extra_applied_to e c =
     (if e > 0 \<and> rc_balance (snd (minimum_step c)) > 0
      then min e (rc_balance (snd (minimum_step c))) else 0)"

definition target_record :: "real \<Rightarrow> remaining_card \<Rightarrow> payment_record" where
  "target_record e c =
     (fst (minimum_step c))
       \<lparr>payment := payment (fst (minimum_step c)) + extra_applied_to e c,
        principal := principal (fst (minimum_step c)) + extra_applied_to e c,
        balance_after := rc_balance (snd (minimum_step c)) - extra_applied_to e c\<rparr>"

definition target_card :: "real \<Rightarrow> remaining_card \<Rightarrow> remaining_card" where
  "target_card e c =
     (snd (minimum_step c))\<lparr>rc_balance := rc_balance (snd (minimum_step c)) - extra_applied_to e c\<rparr>"

text \<open>The properties every payment record has on its own.\<close>

definition record_ok :: "payment_record \<Rightarrow> bool" where
  "record_ok p \<longleftrightarrow>
     payment p = interest p + principal p \<and>
     balance_after p = max 0 (balance_before p - principal p) \<and>
     0 \<le> principal p \<and> 0 \<le> balance_after p"

text \<open>
  For one payment record: by how much the balance went down, and how much of the recorded
  principal went beyond that.
\<close>

definition reduction :: "payment_record \<Rightarrow> real" where
  "reduction p = balance_before p - balance_after p"

definition overpayment :: "payment_record \<Rightarrow> real" where
  "overpayment p = principal p - (balance_before p - balance_after p)"

subsection \<open>The run over a store of objects\<close>

text \<open>
  The same function with the objects it shares made explicit. A store is a list of objects
  and an address is an index into it. The objects are the \<^verbatim>\<open>CreditCard\<close> instances the
  caller passes in and the dictionaries of \<^verbatim>\<open>remaining_cards\<close>, which the comprehension
  creates and the loop mutates through the aliases \<^verbatim>\<open>card\<close> and \<^verbatim>\<open>target_card\<close>. The
  argument \<^verbatim>\<open>cards\<close> is a list of addresses. The lists built by the comprehensions and by
  \<^verbatim>\<open>sorted\<close> are new lists, and \<^verbatim>\<open>month_data\<close> with its payment records is created and
  finished within one pass of the loop, so these are values as before. Reading an
  attribute of an object that is not a \<^verbatim>\<open>CreditCard\<close> raises in Python; here the result
  is \<open>None\<close>.
\<close>

type_synonym addr = nat

datatype obj = Card CreditCard | Dict remaining_card

type_synonym store = "obj list"

text \<open>
  Reading an attribute of the object at an address as a \<^verbatim>\<open>CreditCard\<close>, reading a key of
  it as a dictionary, and assigning to a key of a dictionary.
\<close>

definition get_card :: "store \<Rightarrow> addr \<Rightarrow> CreditCard option" where
  "get_card s a =
     (if a < length s then (case s ! a of Card c \<Rightarrow> Some c | Dict d \<Rightarrow> None) else None)"

definition get_dict :: "store \<Rightarrow> addr \<Rightarrow> remaining_card option" where
  "get_dict s a =
     (if a < length s then (case s ! a of Card c \<Rightarrow> None | Dict d \<Rightarrow> Some d) else None)"

definition put_dict :: "store \<Rightarrow> addr \<Rightarrow> remaining_card \<Rightarrow> store" where
  "put_dict s a d = s[a := Dict d]"

text \<open>
  The comprehension that builds \<^verbatim>\<open>remaining_cards\<close>: each dictionary is a new object at
  the end of the store.
\<close>

fun alloc_dicts :: "remaining_card list \<Rightarrow> store \<Rightarrow> addr list \<times> store" where
  "alloc_dicts [] s = ([], s)"
| "alloc_dicts (d # ds) s =
     (let a = length s;
          res = alloc_dicts ds (s @ [Dict d])
      in (a # fst res, snd res))"

text \<open>
  The loop \<^verbatim>\<open>for card in remaining_cards\<close>: \<^verbatim>\<open>card\<close> is an address, and
  \<^verbatim>\<open>card["balance"] = new_balance\<close> writes to the object there.
\<close>

fun st_apply_minimums ::
  "addr list \<Rightarrow> store \<Rightarrow> month_data \<Rightarrow> (store \<times> month_data) option" where
  "st_apply_minimums [] s md = Some (s, md)"
| "st_apply_minimums (a # as) s md =
     (case get_dict s a of
        None \<Rightarrow> None
      | Some c \<Rightarrow>
          (let r = fst (minimum_step c);
               c' = snd (minimum_step c);
               md' = md\<lparr>payments := payments md @ [r],
                        total_paid := total_paid md + payment r,
                        interest_paid := interest_paid md + interest r\<rparr>
           in st_apply_minimums as (put_dict s a c') md'))"

text \<open>
  The extra payment: \<^verbatim>\<open>target_card\<close> is the address \<^verbatim>\<open>remaining_cards[0]\<close>, and the
  subtraction from its balance writes to the object there.
\<close>

definition st_apply_extra ::
  "real \<Rightarrow> addr list \<Rightarrow> store \<Rightarrow> month_data \<Rightarrow> (store \<times> month_data) option" where
  "st_apply_extra extra remaining_cards s md =
     (if extra > 0 \<and> remaining_cards \<noteq> [] then
        (case get_dict s (hd remaining_cards) of
           None \<Rightarrow> None
         | Some target \<Rightarrow>
             if rc_balance target > 0 then
               (let extra_applied = min extra (rc_balance target);
                    target' = target\<lparr>rc_balance := rc_balance target - extra_applied\<rparr>
                in Some (put_dict s (hd remaining_cards) target',
                     md\<lparr>payments := update_payment_record (rc_name target') extra_applied
                                       (rc_balance target') (payments md),
                        total_paid := total_paid md + extra_applied\<rparr>))
             else Some (s, md))
      else Some (s, md))"

text \<open>
  One pass of the loop body: the balances are read back from the store for
  \<^verbatim>\<open>balances_after\<close> and for the removal of the paid-off cards, which keeps the addresses
  of the others.
\<close>

definition st_run_month ::
  "real \<Rightarrow> nat \<Rightarrow> addr list \<Rightarrow> store \<Rightarrow> (addr list \<times> store \<times> month_data) option" where
  "st_run_month extra m remaining_cards s =
     (let md0 = \<lparr>month = m, payments = [], balances_after = [], total_paid = 0,
                 interest_paid = 0\<rparr>
      in case st_apply_minimums remaining_cards s md0 of
           None \<Rightarrow> None
         | Some (s1, md1) \<Rightarrow>
             (case st_apply_extra extra remaining_cards s1 md1 of
                None \<Rightarrow> None
              | Some (s2, md2) \<Rightarrow>
                  (case those (map (get_dict s2) remaining_cards) of
                     None \<Rightarrow> None
                   | Some ds \<Rightarrow>
                       Some (map fst (filter (\<lambda>(a, c). rc_balance c > 0) (zip remaining_cards ds)),
                             s2,
                             md2\<lparr>balances_after :=
                                   balances_after md2 @ map (\<lambda>c. (rc_name c, rc_balance c)) ds\<rparr>))))"

text \<open>The loop \<^verbatim>\<open>while remaining_cards\<close> over the store.\<close>

function st_payoff_loop ::
  "real \<Rightarrow> nat \<Rightarrow> addr list \<Rightarrow> store \<Rightarrow> month_data list \<Rightarrow> real \<Rightarrow>
   (store \<times> (error + schedule_result)) option" where
  "st_payoff_loop extra m remaining_cards s sched tip =
     (if remaining_cards = [] then
        Some (s, Inr \<lparr>schedule = sched, total_months = length sched, total_interest_paid = tip,
                      total_amount_paid = sum_list (map total_paid sched)\<rparr>)
      else
        (case st_run_month extra m remaining_cards s of
           None \<Rightarrow> None
         | Some (remaining', s', md) \<Rightarrow>
             (let tip' = tip + interest_paid md;
                  sched' = sched @ [md];
                  m' = m + 1
              in if m' > 1000 then Some (s', Inl RunawaySchedule)
                 else st_payoff_loop extra m' remaining' s' sched' tip')))"
  by pat_completeness auto
termination
  by (relation "measure (\<lambda>(e, m, r, s, sc, t). 1001 - m)") auto

text \<open>
  The function over the store. The attributes of the cards are read before the loop only
  (by the filter, the sort, the sum of the minimum payments and the comprehension), and
  nothing is written in between, so they are read once here; the values bound before the
  loop are those of the value-level function on what was read.
\<close>

definition st_create_payment_schedule ::
  "store \<Rightarrow> addr list \<Rightarrow> real \<Rightarrow> (store \<times> (error + schedule_result)) option" where
  "st_create_payment_schedule s cards total_monthly_payment =
     (case those (map (get_card s) cards) of
        None \<Rightarrow> None
      | Some cs \<Rightarrow>
          if total_monthly_payment < total_minimums cs
          then Some (s, Inl (BudgetBelowMinimum total_monthly_payment (total_minimums cs)))
          else (let res = alloc_dicts (initial_remaining cs) s
                in st_payoff_loop (extra_payment cs total_monthly_payment) 1
                     (fst res) (snd res) [] 0))"

subsection \<open>Example inputs\<close>

text \<open>
  A small input and the schedule computed for it: two cards without interest, a budget of 36
  against minimum payments of 35.
\<close>

definition example_cards :: "CreditCard list" where
  "example_cards = [CreditCard_init ''B'' 31 25 ''28th'' 0 0 '''',
                    CreditCard_init ''A'' 30 10 ''15th'' 0 0 '''']"

definition example_result :: schedule_result where
  "example_result =
     \<lparr>schedule =
        [\<lparr>month = 1,
          payments =
            [\<lparr>card = ''A'', payment = 11, interest = 0, principal = 11,
              balance_before = 30, balance_after = 19\<rparr>,
             \<lparr>card = ''B'', payment = 25, interest = 0, principal = 25,
              balance_before = 31, balance_after = 6\<rparr>],
          balances_after = [(''A'', 19), (''B'', 6)], total_paid = 36, interest_paid = 0\<rparr>,
         \<lparr>month = 2,
          payments =
            [\<lparr>card = ''A'', payment = 11, interest = 0, principal = 11,
              balance_before = 19, balance_after = 8\<rparr>,
             \<lparr>card = ''B'', payment = 25, interest = 0, principal = 25,
              balance_before = 6, balance_after = 0\<rparr>],
          balances_after = [(''A'', 8), (''B'', 0)], total_paid = 36, interest_paid = 0\<rparr>,
         \<lparr>month = 3,
          payments =
            [\<lparr>card = ''A'', payment = 10, interest = 0, principal = 10,
              balance_before = 8, balance_after = 0\<rparr>],
          balances_after = [(''A'', 0)], total_paid = 10, interest_paid = 0\<rparr>],
      total_months = 3, total_interest_paid = 0, total_amount_paid = 82\<rparr>"

text \<open>A working card without interest, with balance \<open>k\<close> and minimum payment 1.\<close>

definition slow_card :: "nat \<Rightarrow> remaining_card" where
  "slow_card k = \<lparr>rc_name = ''S'', rc_balance = real k, rc_minimum = 1, rc_apr = 0,
                  rc_monthly_rate = 0\<rparr>"

section \<open>Properties of the schedule\<close>

declare payoff_loop.simps [simp del]

lemma minimum_step_fst:
  "fst (minimum_step c) =
     \<lparr>card = rc_name c,
      payment = max (rc_minimum c) (rc_balance c * rc_monthly_rate c),
      interest = rc_balance c * rc_monthly_rate c,
      principal = max 0 (rc_minimum c - rc_balance c * rc_monthly_rate c),
      balance_before = rc_balance c,
      balance_after = max 0 (rc_balance c - max 0 (rc_minimum c - rc_balance c * rc_monthly_rate c))\<rparr>"
  by (simp add: minimum_step_def calculate_interest_def Let_def max_def)

lemma minimum_step_snd:
  "snd (minimum_step c) =
     c\<lparr>rc_balance := max 0 (rc_balance c - max 0 (rc_minimum c - rc_balance c * rc_monthly_rate c))\<rparr>"
  by (simp add: minimum_step_def calculate_interest_def Let_def max_def)

lemma apply_minimums_eq:
  "apply_minimums cs md =
     (map (\<lambda>c. snd (minimum_step c)) cs,
      md\<lparr>payments := payments md @ map (\<lambda>c. fst (minimum_step c)) cs,
         total_paid := total_paid md + sum_list (map (\<lambda>c. payment (fst (minimum_step c))) cs),
         interest_paid := interest_paid md + sum_list (map (\<lambda>c. interest (fst (minimum_step c))) cs)\<rparr>)"
proof (induction cs arbitrary: md)
  case Nil
  show ?case by simp
next
  case (Cons c cs)
  show ?case by (simp add: Cons.IH Let_def add.assoc)
qed

lemma minimum_step_card [simp]: "card (fst (minimum_step c)) = rc_name c"
  by (simp add: minimum_step_def Let_def)

lemma minimum_step_name [simp]: "rc_name (snd (minimum_step c)) = rc_name c"
  by (simp add: minimum_step_def Let_def)

lemma minimum_step_balance_after:
  "balance_after (fst (minimum_step c)) = rc_balance (snd (minimum_step c))"
  by (simp add: minimum_step_def Let_def)

lemma target_record_no_extra:
  "\<not> (e > 0 \<and> rc_balance (snd (minimum_step c)) > 0) \<Longrightarrow> target_record e c = fst (minimum_step c)"
  by (auto simp add: target_record_def extra_applied_to_def minimum_step_balance_after [symmetric])

lemma target_card_no_extra:
  "\<not> (e > 0 \<and> rc_balance (snd (minimum_step c)) > 0) \<Longrightarrow> target_card e c = snd (minimum_step c)"
  by (auto simp add: target_card_def extra_applied_to_def)

lemma apply_extra_Cons:
  assumes "card r = rc_name c0" and "balance_after r = rc_balance c0"
  shows "apply_extra e (c0 # cs) (md\<lparr>payments := r # rs\<rparr>) =
     (let x = (if e > 0 \<and> rc_balance c0 > 0 then min e (rc_balance c0) else 0)
      in (c0\<lparr>rc_balance := rc_balance c0 - x\<rparr> # cs,
          md\<lparr>payments := r\<lparr>payment := payment r + x, principal := principal r + x,
                            balance_after := rc_balance c0 - x\<rparr> # rs,
             total_paid := total_paid md + x\<rparr>))"
proof (cases "e > 0 \<and> rc_balance c0 > 0")
  case True
  then show ?thesis using assms by (simp add: apply_extra_def Let_def)
next
  case False
  then have x: "(if e > 0 \<and> rc_balance c0 > 0 then min e (rc_balance c0) else 0) = 0"
    by auto
  from False have ae: "apply_extra e (c0 # cs) (md\<lparr>payments := r # rs\<rparr>) =
      (c0 # cs, md\<lparr>payments := r # rs\<rparr>)"
    by (auto simp add: apply_extra_def Let_def)
  show ?thesis unfolding Let_def x ae using assms by simp
qed

lemma run_month_Cons:
  "run_month e m (c # cs) =
     (filter (\<lambda>c. rc_balance c > 0) (target_card e c # map (\<lambda>c. snd (minimum_step c)) cs),
      \<lparr>month = m,
       payments = target_record e c # map (\<lambda>c. fst (minimum_step c)) cs,
       balances_after = map (\<lambda>c. (rc_name c, rc_balance c))
                          (target_card e c # map (\<lambda>c. snd (minimum_step c)) cs),
       total_paid = payment (target_record e c)
                    + sum_list (map (\<lambda>c. payment (fst (minimum_step c))) cs),
       interest_paid = interest (target_record e c)
                    + sum_list (map (\<lambda>c. interest (fst (minimum_step c))) cs)\<rparr>)"
proof -
  let ?md0 = "\<lparr>month = m, payments = [], balances_after = [], total_paid = 0, interest_paid = 0\<rparr>"
  let ?r = "fst (minimum_step c)" and ?c0 = "snd (minimum_step c)"
  let ?rs = "map (\<lambda>c. fst (minimum_step c)) cs" and ?cs' = "map (\<lambda>c. snd (minimum_step c)) cs"
  let ?md1 = "\<lparr>month = m, payments = ?r # ?rs, balances_after = [],
               total_paid = payment ?r + sum_list (map (\<lambda>c. payment (fst (minimum_step c))) cs),
               interest_paid = interest ?r + sum_list (map (\<lambda>c. interest (fst (minimum_step c))) cs)\<rparr>"
  have s1: "apply_minimums (c # cs) ?md0 = (?c0 # ?cs', ?md1)"
    by (simp add: apply_minimums_eq)
  have "?md1 = ?md1\<lparr>payments := ?r # ?rs\<rparr>" by simp
  then have s2: "apply_extra e (?c0 # ?cs') ?md1 =
      (target_card e c # ?cs',
       ?md1\<lparr>payments := target_record e c # ?rs,
             total_paid := total_paid ?md1 + extra_applied_to e c\<rparr>)"
    using apply_extra_Cons [where r = ?r and ?c0.0 = ?c0 and e = e and cs = ?cs' and md = ?md1 and rs = ?rs]
    by (simp add: minimum_step_balance_after Let_def target_card_def target_record_def
        extra_applied_to_def)
  show ?thesis
    unfolding run_month_def Let_def s1 fst_conv snd_conv s2
    by (simp add: target_record_def)
qed

lemma length_periods [simp]: "length (periods e m rem n) = n"
  by (induction n arbitrary: m rem) simp_all

lemma periods_nth:
  "k < n \<Longrightarrow> periods e m rem n ! k = snd (run_month e (m + k) (remaining_at e m rem k))"
proof (induction n arbitrary: m rem k)
  case 0
  then show ?case by simp
next
  case (Suc n)
  show ?case
  proof (cases k)
    case 0
    then show ?thesis by simp
  next
    case (Suc j)
    with Suc.prems have "j < n" by simp
    from Suc.IH [OF this] Suc show ?thesis by simp
  qed
qed

lemma payoff_loop_Inr:
  "payoff_loop e m rem sched tip = Inr r \<Longrightarrow>
     \<exists>n. remaining_at e m rem n = [] \<and> (\<forall>k<n. remaining_at e m rem k \<noteq> []) \<and>
         m + n \<le> 1000 + (if n = 0 then m else 0) \<and>
         r = \<lparr>schedule = sched @ periods e m rem n,
              total_months = length sched + n,
              total_interest_paid = tip + sum_list (map interest_paid (periods e m rem n)),
              total_amount_paid = sum_list (map total_paid (sched @ periods e m rem n))\<rparr>"
proof (induction e m rem sched tip rule: payoff_loop.induct)
  case (1 e m rem sched tip)
  show ?case
  proof (cases "rem = []")
    case True
    with "1.prems" have "r = \<lparr>schedule = sched, total_months = length sched,
        total_interest_paid = tip, total_amount_paid = sum_list (map total_paid sched)\<rparr>"
      by (simp add: payoff_loop.simps)
    with True show ?thesis by (intro exI [of _ 0]) simp
  next
    case False
    let ?s = "run_month e m rem"
    from False "1.prems" have le: "\<not> m + 1 > 1000"
      by (auto simp add: payoff_loop.simps [of e m rem] Let_def split: if_splits)
    from False "1.prems" le
    have rec: "payoff_loop e (m + 1) (fst ?s) (sched @ [snd ?s]) (tip + interest_paid (snd ?s)) = Inr r"
      by (simp add: payoff_loop.simps [of e m rem] Let_def)
    from "1.IH" [OF False refl refl refl refl le rec]
    obtain n where n: "remaining_at e (m + 1) (fst ?s) n = []"
      "\<forall>k<n. remaining_at e (m + 1) (fst ?s) k \<noteq> []"
      "m + 1 + n \<le> 1000 + (if n = 0 then m + 1 else 0)"
      "r = \<lparr>schedule = (sched @ [snd ?s]) @ periods e (m + 1) (fst ?s) n,
              total_months = length (sched @ [snd ?s]) + n,
              total_interest_paid = tip + interest_paid (snd ?s)
                 + sum_list (map interest_paid (periods e (m + 1) (fst ?s) n)),
              total_amount_paid =
                 sum_list (map total_paid ((sched @ [snd ?s]) @ periods e (m + 1) (fst ?s) n))\<rparr>"
      by blast
    have "\<forall>k<Suc n. remaining_at e m rem k \<noteq> []"
    proof (intro allI impI)
      fix k assume "k < Suc n"
      then show "remaining_at e m rem k \<noteq> []"
        using False n(2) by (cases k) simp_all
    qed
    moreover have "m + Suc n \<le> 1000" using n(3) le by (simp split: if_splits)
    ultimately show ?thesis using n(1) n(4)
      by (intro exI [of _ "Suc n"]) (simp add: add.assoc)
  qed
qed

lemma payoff_loop_error:
  "payoff_loop e m rem sched tip = Inl err \<Longrightarrow> err = RunawaySchedule"
proof (induction e m rem sched tip rule: payoff_loop.induct)
  case (1 e m rem sched tip)
  show ?case
  proof (cases "rem = [] \<or> m + 1 > 1000")
    case True
    with "1.prems" show ?thesis
      by (auto simp add: payoff_loop.simps [of e m rem] Let_def split: if_splits)
  next
    case False
    with "1.prems" "1.IH" [OF _ refl refl refl refl] show ?thesis
      by (simp add: payoff_loop.simps [of e m rem] Let_def)
  qed
qed

lemma run_month_Nil:
  "run_month e m [] =
     ([], \<lparr>month = m, payments = [], balances_after = [], total_paid = 0, interest_paid = 0\<rparr>)"
  by (simp add: run_month_def apply_extra_def)

lemma minimum_step_before [simp]: "balance_before (fst (minimum_step c)) = rc_balance c"
  by (simp add: minimum_step_def Let_def)

lemma minimum_step_snd_eq:
  "snd (minimum_step c) = c\<lparr>rc_balance := balance_after (fst (minimum_step c))\<rparr>"
  by (simp add: minimum_step_def Let_def)

lemma target_record_card [simp]: "card (target_record e c) = rc_name c"
  by (simp add: target_record_def)

lemma target_record_before [simp]: "balance_before (target_record e c) = rc_balance c"
  by (simp add: target_record_def)

lemma target_card_eq:
  "target_card e c = c\<lparr>rc_balance := balance_after (target_record e c)\<rparr>"
  by (simp add: target_card_def target_record_def minimum_step_snd_eq)

lemma minimum_step_ok: "record_ok (fst (minimum_step c))"
  by (simp add: record_ok_def minimum_step_def Let_def calculate_interest_def)

lemma minimum_step_nonneg: "0 \<le> rc_balance (snd (minimum_step c))"
  by (simp add: minimum_step_def Let_def)

lemma extra_applied_to_bounds:
  "0 \<le> extra_applied_to e c \<and> extra_applied_to e c \<le> balance_after (fst (minimum_step c))"
  using minimum_step_nonneg [of c]
  by (simp add: extra_applied_to_def minimum_step_balance_after)

lemma target_record_ok: "record_ok (target_record e c)"
proof -
  let ?r = "fst (minimum_step c)" and ?x = "extra_applied_to e c"
  have ok: "record_ok ?r" by (rule minimum_step_ok)
  have x: "0 \<le> ?x" "?x \<le> balance_after ?r" using extra_applied_to_bounds by blast+
  have after: "balance_after ?r - ?x = max 0 (balance_before ?r - (principal ?r + ?x))"
  proof (cases "?x = 0")
    case True
    then show ?thesis using ok by (simp add: record_ok_def)
  next
    case False
    with x have "0 < balance_after ?r" by simp
    with ok have "balance_after ?r = balance_before ?r - principal ?r"
      by (simp add: record_ok_def max_def split: if_splits)
    with x show ?thesis by (simp add: max_def)
  qed
  show ?thesis
    using ok x after
    by (simp add: record_ok_def target_record_def minimum_step_balance_after)
qed

lemma run_month_records_ok:
  "p \<in> set (payments (snd (run_month e m rem))) \<Longrightarrow> record_ok p"
  by (cases rem) (auto simp add: run_month_Nil run_month_Cons target_record_ok minimum_step_ok)

lemma run_month_lines:
  "map (\<lambda>p. (card p, balance_before p)) (payments (snd (run_month e m rem))) =
   map (\<lambda>c. (rc_name c, rc_balance c)) rem"
  by (cases rem) (simp_all add: run_month_Nil run_month_Cons)

lemma run_month_length [simp]: "length (payments (snd (run_month e m rem))) = length rem"
  by (cases rem) (simp_all add: run_month_Nil run_month_Cons)

lemma filter_updated:
  "filter (\<lambda>c. 0 < rc_balance c) (map (\<lambda>(c, p). c\<lparr>rc_balance := balance_after p\<rparr>) zs) =
   map (\<lambda>(c, p). c\<lparr>rc_balance := balance_after p\<rparr>) (filter (\<lambda>(c, p). 0 < balance_after p) zs)"
  by (induction zs) auto

lemma run_month_remaining:
  "fst (run_month e m rem) =
     map (\<lambda>(c, p). c\<lparr>rc_balance := balance_after p\<rparr>)
       (filter (\<lambda>(c, p). 0 < balance_after p) (zip rem (payments (snd (run_month e m rem)))))"
proof (cases rem)
  case Nil
  then show ?thesis by (simp add: run_month_Nil)
next
  case (Cons c cs)
  have "map (\<lambda>c. snd (minimum_step c)) cs =
        map (\<lambda>(c, p). c\<lparr>rc_balance := balance_after p\<rparr>) (zip cs (map (\<lambda>c. fst (minimum_step c)) cs))"
    by (induction cs) (simp_all add: minimum_step_snd_eq [symmetric])
  then have "target_card e c # map (\<lambda>c. snd (minimum_step c)) cs =
        map (\<lambda>(c, p). c\<lparr>rc_balance := balance_after p\<rparr>)
          (zip (c # cs) (target_record e c # map (\<lambda>c. fst (minimum_step c)) cs))"
    by (simp add: target_card_eq)
  then show ?thesis
    unfolding Cons run_month_Cons fst_conv snd_conv month_data.simps
    by (simp only: filter_updated)
qed

lemma run_month_positive: "c \<in> set (fst (run_month e m rem)) \<Longrightarrow> 0 < rc_balance c"
  by (simp add: run_month_def Let_def)

lemma run_month_others:
  "0 < i \<Longrightarrow> i < length rem \<Longrightarrow>
     payments (snd (run_month e m rem)) ! i = fst (minimum_step (rem ! i))"
  by (cases rem; cases i) (simp_all add: run_month_Cons)

lemma run_month_target:
  "rem \<noteq> [] \<Longrightarrow> hd (payments (snd (run_month e m rem))) = target_record e (hd rem)"
  by (cases rem) (simp_all add: run_month_Cons)

lemma run_month_totals:
  "total_paid (snd (run_month e m rem)) = sum_list (map payment (payments (snd (run_month e m rem))))"
  "interest_paid (snd (run_month e m rem)) = sum_list (map interest (payments (snd (run_month e m rem))))"
  by (cases rem; simp add: run_month_Nil run_month_Cons comp_def target_record_def minimum_step_card)+

lemma remaining_at_Suc:
  "remaining_at e m rem (Suc k) = fst (run_month e (m + k) (remaining_at e m rem k))"
  by (induction k arbitrary: m rem) simp_all

lemma remaining_at_positive:
  "\<forall>c\<in>set rem. 0 < rc_balance c \<Longrightarrow> c \<in> set (remaining_at e m rem k) \<Longrightarrow> 0 < rc_balance c"
  by (cases k) (auto simp add: remaining_at_Suc run_month_positive simp del: remaining_at.simps(2))

lemma cards_sorted_positive: "c \<in> set (cards_sorted cards) \<Longrightarrow> 0 < balance c"
  by (simp add: cards_sorted_def)

lemma initial_remaining_positive: "c \<in> set (initial_remaining cards) \<Longrightarrow> 0 < rc_balance c"
  by (auto simp add: initial_remaining_def working_copy_def cards_sorted_positive)

lemma create_payment_schedule_Inr:
  assumes "create_payment_schedule cards b = Inr r"
  shows "\<exists>n. total_minimums cards \<le> b \<and> n < 1000 \<and>
           remaining_at (extra_payment cards b) 1 (initial_remaining cards) n = [] \<and>
           (\<forall>k<n. remaining_at (extra_payment cards b) 1 (initial_remaining cards) k \<noteq> []) \<and>
           r = \<lparr>schedule = periods (extra_payment cards b) 1 (initial_remaining cards) n,
                total_months = n,
                total_interest_paid =
                  sum_list (map interest_paid
                    (periods (extra_payment cards b) 1 (initial_remaining cards) n)),
                total_amount_paid =
                  sum_list (map total_paid
                    (periods (extra_payment cards b) 1 (initial_remaining cards) n))\<rparr>"
proof -
  from assms have le: "total_minimums cards \<le> b"
    and loop: "payoff_loop (extra_payment cards b) 1 (initial_remaining cards) [] 0 = Inr r"
    by (simp_all add: create_payment_schedule_def split: if_splits)
  from payoff_loop_Inr [OF loop] le show ?thesis
    by (auto split: if_splits)
qed

text \<open>The properties of a schedule that is the output of the loop.\<close>

lemma periods_member:
  assumes "md \<in> set (periods e m rem n)"
  shows "\<exists>k<n. md = snd (run_month e (m + k) (remaining_at e m rem k))"
proof -
  from assms obtain k where "k < n" "md = periods e m rem n ! k"
    by (auto simp add: in_set_conv_nth)
  then show ?thesis using periods_nth by blast
qed

lemma periods_linked:
  assumes "Suc k < n"
  shows "map (\<lambda>p. (card p, balance_before p)) (payments (periods e m rem n ! Suc k)) =
         filter (\<lambda>(n, b). 0 < b)
           (map (\<lambda>p. (card p, balance_after p)) (payments (periods e m rem n ! k)))"
proof -
  let ?w = "remaining_at e m rem k"
  let ?P = "payments (snd (run_month e (m + k) ?w))"
  have k: "periods e m rem n ! k = snd (run_month e (m + k) ?w)"
    using assms by (simp add: periods_nth)
  have "periods e m rem n ! Suc k = snd (run_month e (m + Suc k) (remaining_at e m rem (Suc k)))"
    using assms by (rule periods_nth)
  then have "map (\<lambda>p. (card p, balance_before p)) (payments (periods e m rem n ! Suc k)) =
      map (\<lambda>c. (rc_name c, rc_balance c)) (fst (run_month e (m + k) ?w))"
    by (simp only: run_month_lines remaining_at_Suc)
  also have "\<dots> = map (\<lambda>c. (rc_name c, rc_balance c))
       (map (\<lambda>(c, p). c\<lparr>rc_balance := balance_after p\<rparr>)
         (filter (\<lambda>(c, p). 0 < balance_after p) (zip ?w ?P)))"
    by (subst run_month_remaining) (rule refl)
  also have "\<dots> = map (\<lambda>(c, p). (rc_name c, balance_after p))
         (filter (\<lambda>(c, p). 0 < balance_after p) (zip ?w ?P))"
    by (simp add: case_prod_unfold comp_def)
  also have "\<dots> = filter (\<lambda>(n, b). 0 < b) (map (\<lambda>(c, p). (rc_name c, balance_after p)) (zip ?w ?P))"
    by (simp add: filter_map comp_def case_prod_unfold)
  also have "map (\<lambda>(c, p). (rc_name c, balance_after p)) (zip ?w ?P) =
       map (\<lambda>p. (card p, balance_after p)) ?P"
  proof (rule nth_equalityI)
    show "length (map (\<lambda>(c, p). (rc_name c, balance_after p)) (zip ?w ?P)) =
          length (map (\<lambda>p. (card p, balance_after p)) ?P)"
      by simp
  next
    fix i assume "i < length (map (\<lambda>(c, p). (rc_name c, balance_after p)) (zip ?w ?P))"
    then have i: "i < length ?w" by simp
    have "map (\<lambda>p. (card p, balance_before p)) ?P ! i = map (\<lambda>c. (rc_name c, rc_balance c)) ?w ! i"
      by (simp only: run_month_lines)
    with i have "card (?P ! i) = rc_name (?w ! i)" by simp
    with i show "map (\<lambda>(c, p). (rc_name c, balance_after p)) (zip ?w ?P) ! i =
          map (\<lambda>p. (card p, balance_after p)) ?P ! i"
      by simp
  qed
  finally show ?thesis by (simp only: k)
qed

lemma record_ok_le: "record_ok p \<Longrightarrow> 0 \<le> balance_before p \<Longrightarrow> balance_after p \<le> balance_before p"
  by (simp add: record_ok_def)

lemma run_month_before_positive:
  assumes "\<forall>c\<in>set rem. 0 < rc_balance c" and "p \<in> set (payments (snd (run_month e m rem)))"
  shows "0 < balance_before p"
proof -
  have "(\<lambda>p. (card p, balance_before p)) ` set (payments (snd (run_month e m rem))) =
        (\<lambda>c. (rc_name c, rc_balance c)) ` set rem"
    using arg_cong [OF run_month_lines, of set e m rem] by (simp only: set_map)
  with assms(2) have "(card p, balance_before p) \<in> (\<lambda>c. (rc_name c, rc_balance c)) ` set rem"
    by blast
  with assms(1) show ?thesis by auto
qed

lemma schedule_records:
  assumes "create_payment_schedule cards b = Inr r"
    and "md \<in> set (schedule r)" and "p \<in> set (payments md)"
  shows "record_ok p \<and> 0 < balance_before p"
proof -
  let ?e = "extra_payment cards b" and ?rem = "initial_remaining cards"
  from create_payment_schedule_Inr [OF assms(1)] obtain n
    where "schedule r = periods ?e 1 ?rem n" by auto
  with assms(2) periods_member obtain k
    where md: "md = snd (run_month ?e (1 + k) (remaining_at ?e 1 ?rem k))" by metis
  have "\<forall>c\<in>set (remaining_at ?e 1 ?rem k). 0 < rc_balance c"
    using remaining_at_positive initial_remaining_positive by blast
  with assms(3) show ?thesis
    unfolding md using run_month_records_ok run_month_before_positive by blast
qed

lemma schedule_linked:
  assumes "create_payment_schedule cards b = Inr r" and "Suc k < length (schedule r)"
  shows "map (\<lambda>p. (card p, balance_before p)) (payments (schedule r ! Suc k)) =
         filter (\<lambda>(n, b). 0 < b)
           (map (\<lambda>p. (card p, balance_after p)) (payments (schedule r ! k)))"
proof -
  from create_payment_schedule_Inr [OF assms(1)] obtain n
    where "schedule r = periods (extra_payment cards b) 1 (initial_remaining cards) n" by auto
  with assms(2) show ?thesis by (simp add: periods_linked)
qed

lemma filter_nth_survivor:
  assumes "i < length xs" and "P (xs ! i)"
  shows "length (filter P (take i xs)) < length (filter P xs) \<and>
         filter P xs ! length (filter P (take i xs)) = xs ! i"
proof -
  have "xs = take i xs @ xs ! i # drop (Suc i) xs"
    using assms(1) by (rule id_take_nth_drop)
  then have "filter P xs = filter P (take i xs) @ xs ! i # filter P (drop (Suc i) xs)"
    using assms(2) by (metis filter.simps(2) filter_append)
  then show ?thesis by (simp add: nth_append)
qed

lemmas eval_defs =
  CreditCard_init_def working_copy_def cards_sorted_def total_minimums_def extra_payment_def
  initial_remaining_def run_month_def apply_extra_def minimum_step_def calculate_interest_def
  Let_def

lemma example_schedule: "create_payment_schedule example_cards 36 = Inr example_result"
  by (simp add: create_payment_schedule_def example_cards_def example_result_def
      payoff_loop.simps eval_defs)

lemma sum_list_insort_key:
  fixes g :: "'a \<Rightarrow> real"
  shows "sum_list (map g (insort_key f x xs)) = g x + sum_list (map g xs)"
  by (induction xs) simp_all

lemma sum_list_sort_key:
  fixes g :: "'a \<Rightarrow> real"
  shows "sum_list (map g (sort_key f xs)) = sum_list (map g xs)"
  by (induction xs) (simp_all add: sum_list_insort_key)


lemma payoff_loop_completes:
  "remaining_at e m rem n = [] \<Longrightarrow> n = 0 \<or> m + n \<le> 1000 \<Longrightarrow>
     \<exists>r. payoff_loop e m rem sched tip = Inr r"
proof (induction n arbitrary: m rem sched tip)
  case 0
  then show ?case by (simp add: payoff_loop.simps)
next
  case (Suc n)
  show ?case
  proof (cases "rem = []")
    case True
    then show ?thesis by (simp add: payoff_loop.simps)
  next
    case False
    from Suc.prems have le: "m + 1 \<le> 1000" and "n = 0 \<or> (m + 1) + n \<le> 1000"
      and "remaining_at e (m + 1) (fst (run_month e m rem)) n = []"
      by simp_all
    from Suc.IH [OF this(3) this(2)] False le show ?thesis
      by (simp add: payoff_loop.simps [of e m rem] Let_def)
  qed
qed

lemma runaway_iff:
  "create_payment_schedule cards b = Inl RunawaySchedule \<longleftrightarrow>
     total_minimums cards \<le> b \<and>
     (\<forall>n<1000. remaining_at (extra_payment cards b) 1 (initial_remaining cards) n \<noteq> [])"
proof
  assume err: "create_payment_schedule cards b = Inl RunawaySchedule"
  then have le: "total_minimums cards \<le> b"
    and loop: "payoff_loop (extra_payment cards b) 1 (initial_remaining cards) [] 0 = Inl RunawaySchedule"
    by (simp_all add: create_payment_schedule_def split: if_splits)
  have "remaining_at (extra_payment cards b) 1 (initial_remaining cards) n \<noteq> []" if "n < 1000" for n
  proof
    assume "remaining_at (extra_payment cards b) 1 (initial_remaining cards) n = []"
    moreover from that have "n = 0 \<or> 1 + n \<le> 1000" by simp
    ultimately have "\<exists>r. payoff_loop (extra_payment cards b) 1 (initial_remaining cards) [] 0 = Inr r"
      by (rule payoff_loop_completes)
    with loop show False by simp
  qed
  with le show "total_minimums cards \<le> b \<and>
     (\<forall>n<1000. remaining_at (extra_payment cards b) 1 (initial_remaining cards) n \<noteq> [])"
    by blast
next
  assume a: "total_minimums cards \<le> b \<and>
     (\<forall>n<1000. remaining_at (extra_payment cards b) 1 (initial_remaining cards) n \<noteq> [])"
  show "create_payment_schedule cards b = Inl RunawaySchedule"
  proof (cases "create_payment_schedule cards b")
    case (Inl err)
    with a have "payoff_loop (extra_payment cards b) 1 (initial_remaining cards) [] 0 = Inl err"
      by (simp add: create_payment_schedule_def)
    then have "err = RunawaySchedule" by (rule payoff_loop_error)
    with Inl show ?thesis by simp
  next
    case (Inr r)
    from create_payment_schedule_Inr [OF this] a show ?thesis by blast
  qed
qed

lemma run_month_slow_card:
  "fst (run_month 0 m [slow_card (Suc k)]) = (if k = 0 then [] else [slow_card k])"
proof -
  have "snd (minimum_step (slow_card (Suc k))) = slow_card k"
    by (simp add: minimum_step_def calculate_interest_def Let_def slow_card_def)
  then show ?thesis
    by (simp add: run_month_Cons target_card_no_extra) (simp add: slow_card_def)
qed

lemma remaining_at_Nil: "remaining_at e m [] j = []"
  by (induction j arbitrary: m) (simp_all add: run_month_Nil)

lemma remaining_at_slow_card:
  "remaining_at 0 m [slow_card (Suc k)] j = (if j \<le> k then [slow_card (Suc k - j)] else [])"
proof (induction j arbitrary: k m)
  case 0
  show ?case by simp
next
  case (Suc j)
  show ?case
  proof (cases k)
    case 0
    then show ?thesis by (simp add: run_month_slow_card remaining_at_Nil)
  next
    case (Suc k')
    then show ?thesis by (simp add: run_month_slow_card Suc.IH)
  qed
qed

text \<open>
  Where the money goes: the total paid is the interest, the initial balances of the cards
  scheduled and what the records pay beyond the balance they clear.
\<close>

lemma record_ok_payment:
  "record_ok p \<Longrightarrow> payment p = interest p + (balance_before p - balance_after p) + overpayment p"
  by (simp add: record_ok_def overpayment_def)

lemma record_ok_overpayment: "record_ok p \<Longrightarrow> 0 < balance_before p \<Longrightarrow> 0 \<le> overpayment p"
  by (simp add: record_ok_def overpayment_def max_def split: if_splits)

lemma sum_list_filter_positive:
  fixes f :: "'a \<Rightarrow> real"
  assumes "\<forall>x\<in>set xs. 0 \<le> f x"
  shows "sum_list (map f (filter (\<lambda>x. 0 < f x) xs)) = sum_list (map f xs)"
  using assms by (induction xs) auto

lemma map_filter_zip_snd:
  assumes "length xs = length ys"
  shows "map (\<lambda>(c, p). f p) (filter (\<lambda>(c, p). Q p) (zip xs ys)) = map f (filter Q ys)"
  using assms by (induction xs ys rule: list_induct2) auto

lemma sum_list_diff:
  fixes f g :: "'a \<Rightarrow> real"
  shows "sum_list (map (\<lambda>x. f x - g x) xs) = sum_list (map f xs) - sum_list (map g xs)"
  by (induction xs) simp_all

lemma run_month_balance_before:
  "sum_list (map balance_before (payments (snd (run_month e m rem)))) = sum_list (map rc_balance rem)"
proof -
  have "map balance_before (payments (snd (run_month e m rem))) =
        map snd (map (\<lambda>p. (card p, balance_before p)) (payments (snd (run_month e m rem))))"
    by (simp add: comp_def)
  also have "\<dots> = map rc_balance rem"
    by (simp only: run_month_lines) (simp add: comp_def)
  finally show ?thesis by simp
qed

lemma run_month_balance_after:
  "sum_list (map balance_after (payments (snd (run_month e m rem)))) =
   sum_list (map rc_balance (fst (run_month e m rem)))"
proof -
  let ?P = "payments (snd (run_month e m rem))"
  have nonneg: "\<forall>p\<in>set ?P. 0 \<le> balance_after p"
    using run_month_records_ok by (auto simp add: record_ok_def)
  have "map rc_balance (fst (run_month e m rem)) =
        map (\<lambda>(c, p). balance_after p) (filter (\<lambda>(c, p). 0 < balance_after p) (zip rem ?P))"
    by (subst run_month_remaining) (simp add: case_prod_unfold comp_def)
  also have "\<dots> = map balance_after (filter (\<lambda>p. 0 < balance_after p) ?P)"
    by (rule map_filter_zip_snd) simp
  finally show ?thesis using sum_list_filter_positive [OF nonneg] by simp
qed

lemma periods_reduction:
  "remaining_at e m rem n = [] \<Longrightarrow>
     sum_list (map (\<lambda>md. sum_list (map reduction (payments md))) (periods e m rem n)) =
     sum_list (map rc_balance rem)"
proof (induction n arbitrary: m rem)
  case 0
  then show ?case by simp
next
  case (Suc n)
  let ?P = "payments (snd (run_month e m rem))"
  from Suc.prems have "remaining_at e (m + 1) (fst (run_month e m rem)) n = []" by simp
  from Suc.IH [OF this]
  have rest: "sum_list (map (\<lambda>md. sum_list (map reduction (payments md)))
                 (periods e (m + 1) (fst (run_month e m rem)) n)) =
              sum_list (map rc_balance (fst (run_month e m rem)))" .
  have "sum_list (map reduction ?P) =
        sum_list (map balance_before ?P) - sum_list (map balance_after ?P)"
    unfolding reduction_def by (rule sum_list_diff)
  then have "sum_list (map reduction ?P) =
        sum_list (map rc_balance rem) - sum_list (map rc_balance (fst (run_month e m rem)))"
    by (simp only: run_month_balance_before run_month_balance_after)
  with rest show ?case by simp
qed

lemma sum_list_split3:
  fixes f g h k :: "'a \<Rightarrow> real"
  assumes "\<forall>x\<in>set xs. f x = g x + h x + k x"
  shows "sum_list (map f xs) = sum_list (map g xs) + sum_list (map h xs) + sum_list (map k xs)"
  using assms by (induction xs) auto

lemma run_month_total_paid:
  "total_paid (snd (run_month e m rem)) =
     interest_paid (snd (run_month e m rem)) +
     sum_list (map reduction (payments (snd (run_month e m rem)))) +
     sum_list (map overpayment (payments (snd (run_month e m rem))))"
proof -
  let ?P = "payments (snd (run_month e m rem))"
  have "\<forall>p\<in>set ?P. payment p = interest p + reduction p + overpayment p"
    using run_month_records_ok record_ok_payment by (auto simp add: reduction_def)
  then have "sum_list (map payment ?P) =
      sum_list (map interest ?P) + sum_list (map reduction ?P) + sum_list (map overpayment ?P)"
    by (rule sum_list_split3)
  then show ?thesis by (simp only: run_month_totals)
qed

lemma initial_remaining_balance:
  "sum_list (map rc_balance (initial_remaining cards)) =
   sum_list (map balance (filter (\<lambda>c. 0 < balance c) cards))"
  by (simp add: initial_remaining_def cards_sorted_def working_copy_def comp_def
      sum_list_sort_key)

lemma total_paid_accounting:
  assumes "create_payment_schedule cards b = Inr r"
  shows "total_amount_paid r =
           total_interest_paid r +
           sum_list (map balance (filter (\<lambda>c. 0 < balance c) cards)) +
           sum_list (map (\<lambda>md. sum_list (map overpayment (payments md))) (schedule r))"
    and "\<forall>md\<in>set (schedule r). \<forall>p\<in>set (payments md). 0 \<le> overpayment p"
proof -
  let ?e = "extra_payment cards b" and ?rem = "initial_remaining cards"
  from create_payment_schedule_Inr [OF assms] obtain n
    where fin: "remaining_at ?e 1 ?rem n = []"
      and r: "r = \<lparr>schedule = periods ?e 1 ?rem n, total_months = n,
                total_interest_paid = sum_list (map interest_paid (periods ?e 1 ?rem n)),
                total_amount_paid = sum_list (map total_paid (periods ?e 1 ?rem n))\<rparr>"
    by blast
  have "\<forall>md\<in>set (periods ?e 1 ?rem n).
          total_paid md = interest_paid md + sum_list (map reduction (payments md)) +
                          sum_list (map overpayment (payments md))"
    using periods_member run_month_total_paid by metis
  then have "sum_list (map total_paid (periods ?e 1 ?rem n)) =
      sum_list (map interest_paid (periods ?e 1 ?rem n)) +
      sum_list (map (\<lambda>md. sum_list (map reduction (payments md))) (periods ?e 1 ?rem n)) +
      sum_list (map (\<lambda>md. sum_list (map overpayment (payments md))) (periods ?e 1 ?rem n))"
    by (rule sum_list_split3)
  moreover have "sum_list (map (\<lambda>md. sum_list (map reduction (payments md)))
                   (periods ?e 1 ?rem n)) =
      sum_list (map balance (filter (\<lambda>c. 0 < balance c) cards))"
    by (simp only: periods_reduction [OF fin] initial_remaining_balance)
  moreover have "total_amount_paid r = sum_list (map total_paid (periods ?e 1 ?rem n))"
    "total_interest_paid r = sum_list (map interest_paid (periods ?e 1 ?rem n))"
    "schedule r = periods ?e 1 ?rem n"
    by (subst r, simp)+
  ultimately show "total_amount_paid r =
           total_interest_paid r +
           sum_list (map balance (filter (\<lambda>c. 0 < balance c) cards)) +
           sum_list (map (\<lambda>md. sum_list (map overpayment (payments md))) (schedule r))"
    by (simp only:)
  show "\<forall>md\<in>set (schedule r). \<forall>p\<in>set (payments md). 0 \<le> overpayment p"
    using schedule_records [OF assms] record_ok_overpayment by blast
qed

section \<open>Properties of the run over a store\<close>

declare st_payoff_loop.simps [simp del]

lemma length_put_dict [simp]: "length (put_dict s a d) = length s"
  by (simp add: put_dict_def)

lemma get_dict_put_same: "a < length s \<Longrightarrow> get_dict (put_dict s a d) a = Some d"
  by (simp add: get_dict_def put_dict_def)

lemma get_dict_put_other: "a \<noteq> b \<Longrightarrow> get_dict (put_dict s a d) b = get_dict s b"
  by (simp add: get_dict_def put_dict_def)

lemma put_dict_nth_other: "x \<noteq> a \<Longrightarrow> put_dict s a d ! x = s ! x"
  by (simp add: put_dict_def)

lemma get_dict_Some_lt: "get_dict s a = Some d \<Longrightarrow> a < length s"
  by (simp add: get_dict_def split: if_splits)

lemma get_dict_frame:
  "length s' = length s \<Longrightarrow> s' ! a = s ! a \<Longrightarrow> get_dict s' a = get_dict s a"
  by (simp add: get_dict_def)

lemma map_get_dict_put_other:
  "a \<notin> set as \<Longrightarrow> map (get_dict (put_dict s a d)) as = map (get_dict s) as"
  by (induction as) (auto simp add: get_dict_put_other)

lemma those_map_Some [simp]: "those (map Some xs) = Some xs"
  by (induction xs) simp_all

lemma st_apply_minimums_correct:
  assumes "distinct as" and "map (get_dict s) as = map Some cs"
  shows "\<exists>s'. st_apply_minimums as s md = Some (s', snd (apply_minimums cs md)) \<and>
              map (get_dict s') as = map Some (fst (apply_minimums cs md)) \<and>
              length s' = length s \<and> (\<forall>x. x \<notin> set as \<longrightarrow> s' ! x = s ! x)"
  using assms
proof (induction as arbitrary: s md cs)
  case Nil
  then show ?case by simp
next
  case (Cons a as)
  from Cons.prems(2) obtain c cs' where cs: "cs = c # cs'"
    and a: "get_dict s a = Some c" and rest: "map (get_dict s) as = map Some cs'"
    by (cases cs) auto
  let ?c' = "snd (minimum_step c)"
  let ?md' = "md\<lparr>payments := payments md @ [fst (minimum_step c)],
                  total_paid := total_paid md + payment (fst (minimum_step c)),
                  interest_paid := interest_paid md + interest (fst (minimum_step c))\<rparr>"
  from Cons.prems(1) have notin: "a \<notin> set as" and dist: "distinct as" by simp_all
  from notin rest have "map (get_dict (put_dict s a ?c')) as = map Some cs'"
    by (simp add: map_get_dict_put_other)
  from Cons.IH [OF dist this, of ?md'] obtain s'
    where run: "st_apply_minimums as (put_dict s a ?c') ?md' = Some (s', snd (apply_minimums cs' ?md'))"
      and dicts: "map (get_dict s') as = map Some (fst (apply_minimums cs' ?md'))"
      and len: "length s' = length s"
      and frame: "\<forall>x. x \<notin> set as \<longrightarrow> s' ! x = put_dict s a ?c' ! x"
    by auto
  from a have lt: "a < length s" by (rule get_dict_Some_lt)
  from frame notin have "s' ! a = put_dict s a ?c' ! a" by blast
  with len have "get_dict s' a = get_dict (put_dict s a ?c') a"
    by (simp add: get_dict_frame)
  with lt have a': "get_dict s' a = Some ?c'" by (simp add: get_dict_put_same)
  have fr: "\<forall>x. x \<notin> set (a # as) \<longrightarrow> s' ! x = s ! x"
    using frame by (simp add: put_dict_nth_other)
  from run a have "st_apply_minimums (a # as) s md = Some (s', snd (apply_minimums cs md))"
    by (simp add: cs Let_def)
  moreover from dicts a' have "map (get_dict s') (a # as) = map Some (fst (apply_minimums cs md))"
    by (simp add: cs Let_def)
  ultimately show ?case using len fr by blast
qed

lemma st_apply_extra_correct:
  assumes "distinct as" and "map (get_dict s) as = map Some cs"
  shows "\<exists>s'. st_apply_extra e as s md = Some (s', snd (apply_extra e cs md)) \<and>
              map (get_dict s') as = map Some (fst (apply_extra e cs md)) \<and>
              length s' = length s \<and> (\<forall>x. x \<notin> set as \<longrightarrow> s' ! x = s ! x)"
proof (cases "e > 0 \<and> as \<noteq> []")
  case False
  with assms(2) have "\<not> (e > 0 \<and> cs \<noteq> [])" by auto
  with False assms(2) show ?thesis
    by (auto simp add: st_apply_extra_def apply_extra_def)
next
  case True
  then obtain a as' where as: "as = a # as'" by (cases as) auto
  with assms(2) obtain c cs' where cs: "cs = c # cs'"
    and a: "get_dict s a = Some c" and rest: "map (get_dict s) as' = map Some cs'"
    by (cases cs) auto
  show ?thesis
  proof (cases "rc_balance c > 0")
    case False
    with True a assms(2) show ?thesis
      by (simp add: st_apply_extra_def apply_extra_def as cs Let_def)
  next
    case pos: True
    let ?t = "c\<lparr>rc_balance := rc_balance c - min e (rc_balance c)\<rparr>"
    from assms(1) as have notin: "a \<notin> set as'" by simp
    from a have lt: "a < length s" by (rule get_dict_Some_lt)
    have "map (get_dict (put_dict s a ?t)) as = map Some (?t # cs')"
      using notin rest lt by (simp add: as get_dict_put_same map_get_dict_put_other)
    moreover have "\<forall>x. x \<notin> set as \<longrightarrow> put_dict s a ?t ! x = s ! x"
      by (simp add: as put_dict_nth_other)
    ultimately show ?thesis
      using True pos a
      by (simp add: st_apply_extra_def apply_extra_def as cs Let_def)
  qed
qed

lemma filter_zip_dicts:
  assumes "length as = length cs" and "map (get_dict s) as = map Some cs"
  shows "map (get_dict s) (map fst (filter (\<lambda>(a, c). P c) (zip as cs))) = map Some (filter P cs)"
  using assms by (induction as cs rule: list_induct2) auto

lemma filter_zip_subset:
  "set (map fst (filter Q (zip as cs))) \<subseteq> set as"
  by (auto dest: set_zip_leftD)

lemma filter_zip_distinct:
  assumes "length as = length cs" and "distinct as"
  shows "distinct (map fst (filter Q (zip as cs)))"
  using assms
proof (induction as cs rule: list_induct2)
  case Nil
  then show ?case by simp
next
  case (Cons a as c cs)
  have "a \<notin> set (map fst (filter Q (zip as cs)))"
    using Cons.prems filter_zip_subset [of Q as cs] by auto
  with Cons show ?case by simp
qed

lemma st_run_month_correct:
  assumes "distinct as" and "map (get_dict s) as = map Some cs"
  shows "\<exists>as' s'. st_run_month e m as s = Some (as', s', snd (run_month e m cs)) \<and>
           distinct as' \<and> set as' \<subseteq> set as \<and>
           map (get_dict s') as' = map Some (fst (run_month e m cs)) \<and>
           length s' = length s \<and> (\<forall>x. x \<notin> set as \<longrightarrow> s' ! x = s ! x)"
proof -
  let ?md0 = "\<lparr>month = m, payments = [], balances_after = [], total_paid = 0, interest_paid = 0\<rparr>"
  let ?p1 = "apply_minimums cs ?md0"
  let ?p2 = "apply_extra e (fst ?p1) (snd ?p1)"
  from st_apply_minimums_correct [OF assms, of ?md0] obtain s1
    where r1: "st_apply_minimums as s ?md0 = Some (s1, snd ?p1)"
      and d1: "map (get_dict s1) as = map Some (fst ?p1)"
      and l1: "length s1 = length s" and f1: "\<forall>x. x \<notin> set as \<longrightarrow> s1 ! x = s ! x"
    by blast
  from st_apply_extra_correct [OF assms(1) d1, of e "snd ?p1"] obtain s2
    where r2: "st_apply_extra e as s1 (snd ?p1) = Some (s2, snd ?p2)"
      and d2: "map (get_dict s2) as = map Some (fst ?p2)"
      and l2: "length s2 = length s1" and f2: "\<forall>x. x \<notin> set as \<longrightarrow> s2 ! x = s1 ! x"
    by blast
  let ?as' = "map fst (filter (\<lambda>(a, c). rc_balance c > 0) (zip as (fst ?p2)))"
  from d2 have len: "length as = length (fst ?p2)"
    by (metis length_map)
  have run: "st_run_month e m as s = Some (?as', s2, snd (run_month e m cs))"
    by (simp add: st_run_month_def run_month_def Let_def r1 r2 d2)
  have dicts: "map (get_dict s2) ?as' = map Some (fst (run_month e m cs))"
    using filter_zip_dicts [OF len d2, of "\<lambda>c. rc_balance c > 0"]
    by (simp add: run_month_def Let_def)
  have "distinct ?as'" using len assms(1) by (rule filter_zip_distinct)
  moreover have "set ?as' \<subseteq> set as" by (rule filter_zip_subset)
  moreover have "length s2 = length s" using l1 l2 by simp
  moreover have "\<forall>x. x \<notin> set as \<longrightarrow> s2 ! x = s ! x" using f1 f2 by simp
  ultimately show ?thesis using run dicts by blast
qed

lemma st_payoff_loop_correct:
  "\<forall>as s. distinct as \<longrightarrow> map (get_dict s) as = map Some rem \<longrightarrow>
     (\<exists>s'. st_payoff_loop e m as s sched tip = Some (s', payoff_loop e m rem sched tip) \<and>
           length s' = length s \<and> (\<forall>x. x \<notin> set as \<longrightarrow> s' ! x = s ! x))"
proof (induction e m rem sched tip rule: payoff_loop.induct)
  case (1 e m rem sched tip)
  show ?case
  proof (intro allI impI)
    fix as s
    assume dist: "distinct as" and dicts: "map (get_dict s) as = map Some rem"
    show "\<exists>s'. st_payoff_loop e m as s sched tip = Some (s', payoff_loop e m rem sched tip) \<and>
           length s' = length s \<and> (\<forall>x. x \<notin> set as \<longrightarrow> s' ! x = s ! x)"
    proof (cases "rem = []")
      case True
      with dicts have "as = []" by simp
      with True show ?thesis
        by (simp add: st_payoff_loop.simps payoff_loop.simps)
    next
      case False
      with dicts have ne: "as \<noteq> []" by auto
      from st_run_month_correct [OF dist dicts, of e m] obtain as' s1
        where run: "st_run_month e m as s = Some (as', s1, snd (run_month e m rem))"
          and d1: "distinct as'" and sub: "set as' \<subseteq> set as"
          and dicts1: "map (get_dict s1) as' = map Some (fst (run_month e m rem))"
          and l1: "length s1 = length s" and f1: "\<forall>x. x \<notin> set as \<longrightarrow> s1 ! x = s ! x"
        by blast
      show ?thesis
      proof (cases "m + 1 > 1000")
        case True
        with False ne run l1 f1 show ?thesis
          by (simp add: st_payoff_loop.simps [of e m as] payoff_loop.simps [of e m rem] Let_def)
      next
        case le: False
        from "1.IH" [OF False refl refl refl refl le] d1 dicts1
        obtain s' where rec: "st_payoff_loop e (m + 1) as' s1 (sched @ [snd (run_month e m rem)])
              (tip + interest_paid (snd (run_month e m rem))) =
            Some (s', payoff_loop e (m + 1) (fst (run_month e m rem))
              (sched @ [snd (run_month e m rem)]) (tip + interest_paid (snd (run_month e m rem))))"
          and l2: "length s' = length s1" and f2: "\<forall>x. x \<notin> set as' \<longrightarrow> s' ! x = s1 ! x"
          by blast
        have "\<forall>x. x \<notin> set as \<longrightarrow> s' ! x = s ! x"
          using f1 f2 sub by auto
        with False ne run le rec l1 l2 show ?thesis
          by (simp add: st_payoff_loop.simps [of e m as] payoff_loop.simps [of e m rem] Let_def)
      qed
    qed
  qed
qed

lemma alloc_dicts_eq:
  "alloc_dicts ds s = ([length s ..< length s + length ds], s @ map Dict ds)"
proof (induction ds arbitrary: s)
  case Nil
  show ?case by simp
next
  case (Cons d ds)
  have "[length s ..< length s + length (d # ds)] =
        length s # [length (s @ [Dict d]) ..< length (s @ [Dict d]) + length ds]"
    using upt_conv_Cons [of "length s" "length s + Suc (length ds)"] by simp
  then show ?case by (simp only: alloc_dicts.simps Let_def Cons.IH fst_conv snd_conv) simp
qed

lemma get_dict_allocated:
  "map (get_dict (s @ map Dict ds)) [length s ..< length s + length ds] = map Some ds"
proof (rule nth_equalityI)
  show "length (map (get_dict (s @ map Dict ds)) [length s ..< length s + length ds]) =
        length (map Some ds)"
    by simp
next
  fix i assume "i < length (map (get_dict (s @ map Dict ds)) [length s ..< length s + length ds])"
  then have "i < length ds" by simp
  then show "map (get_dict (s @ map Dict ds)) [length s ..< length s + length ds] ! i =
        map Some ds ! i"
    by (simp add: get_dict_def nth_append)
qed

lemma st_create_payment_schedule_correct:
  assumes "map (get_card s) cards = map Some cs"
  shows "\<exists>s'. st_create_payment_schedule s cards b = Some (s', create_payment_schedule cs b) \<and>
              length s \<le> length s' \<and> (\<forall>x<length s. s' ! x = s ! x)"
proof (cases "b < total_minimums cs")
  case True
  then show ?thesis
    by (simp add: st_create_payment_schedule_def create_payment_schedule_def assms)
next
  case False
  let ?ds = "initial_remaining cs"
  let ?as = "[length s ..< length s + length ?ds]"
  let ?s0 = "s @ map Dict ?ds"
  have "distinct ?as" by simp
  moreover have "map (get_dict ?s0) ?as = map Some ?ds" by (rule get_dict_allocated)
  ultimately obtain s' where
    run: "st_payoff_loop (extra_payment cs b) 1 ?as ?s0 [] 0 =
            Some (s', payoff_loop (extra_payment cs b) 1 ?ds [] 0)"
    and len: "length s' = length ?s0" and frame: "\<forall>x. x \<notin> set ?as \<longrightarrow> s' ! x = ?s0 ! x"
    using st_payoff_loop_correct [of ?ds "extra_payment cs b" 1 "[]" 0] by blast
  have "\<forall>x<length s. s' ! x = s ! x"
    using frame by (simp add: nth_append)
  with False run len show ?thesis
    by (simp add: st_create_payment_schedule_def create_payment_schedule_def assms alloc_dicts_eq)
qed

section \<open>The claims\<close>

text \<open>
  Claim C1. The cards are sorted by balance once, stably. In every period \<open>k\<close> of a computed
  schedule the payment records follow the list of remaining cards of that period position
  by position; every record but the first is exactly the record of the minimum-payment
  step; the first is that record with one amount, the extra payment applied, added to its
  payment and principal; and the list of the next period is the current one, in the same
  order, without the cards whose balance is no longer positive.
\<close>

theorem snowball_targeting:
  assumes "create_payment_schedule cards b = Inr r" and "k < length (schedule r)"
  shows "let e = extra_payment cards b;
             ws = remaining_at e 1 (initial_remaining cards) k;
             ps = payments (schedule r ! k);
             c0 = snd (minimum_step (hd ws));
             x = (if 0 < e \<and> 0 < rc_balance c0 then min e (rc_balance c0) else 0)
         in sorted (map balance (cards_sorted cards)) \<and>
            (\<forall>v. filter (\<lambda>c. balance c = v) (cards_sorted cards) =
                 filter (\<lambda>c. balance c = v) (filter (\<lambda>c. 0 < balance c) cards)) \<and>
            ws \<noteq> [] \<and> length ps = length ws \<and>
            (\<forall>i<length ws. card (ps ! i) = rc_name (ws ! i) \<and>
                            balance_before (ps ! i) = rc_balance (ws ! i)) \<and>
            (\<forall>i. 0 < i \<and> i < length ws \<longrightarrow> ps ! i = fst (minimum_step (ws ! i))) \<and>
            hd ps = (fst (minimum_step (hd ws)))
                      \<lparr>payment := payment (fst (minimum_step (hd ws))) + x,
                       principal := principal (fst (minimum_step (hd ws))) + x,
                       balance_after := rc_balance c0 - x\<rparr> \<and>
            remaining_at e 1 (initial_remaining cards) (Suc k) =
              map (\<lambda>(c, p). c\<lparr>rc_balance := balance_after p\<rparr>)
                (filter (\<lambda>(c, p). 0 < balance_after p) (zip ws ps))"
proof -
  let ?e = "extra_payment cards b"
  let ?ws = "remaining_at ?e 1 (initial_remaining cards) k"
  let ?ps = "payments (schedule r ! k)"
  from create_payment_schedule_Inr [OF assms(1)] obtain n
    where n: "\<forall>j<n. remaining_at ?e 1 (initial_remaining cards) j \<noteq> []"
      and sched: "schedule r = periods ?e 1 (initial_remaining cards) n"
    by auto
  from assms(2) sched have k: "k < n" by simp
  with n have ne: "?ws \<noteq> []" by blast
  from k sched have md: "schedule r ! k = snd (run_month ?e (1 + k) ?ws)"
    by (simp add: periods_nth)
  have sorted: "sorted (map balance (cards_sorted cards))"
    by (simp add: cards_sorted_def)
  have stable: "filter (\<lambda>c. balance c = v) (cards_sorted cards) =
                 filter (\<lambda>c. balance c = v) (filter (\<lambda>c. 0 < balance c) cards)" for v
    unfolding cards_sorted_def by (rule sort_key_stable)
  have len: "length ?ps = length ?ws" by (simp add: md)
  have lines: "card (?ps ! i) = rc_name (?ws ! i) \<and> balance_before (?ps ! i) = rc_balance (?ws ! i)"
    if "i < length ?ws" for i
  proof -
    have "map (\<lambda>p. (card p, balance_before p)) ?ps ! i = map (\<lambda>c. (rc_name c, rc_balance c)) ?ws ! i"
      unfolding md by (simp only: run_month_lines)
    with that len show ?thesis by simp
  qed
  have others: "?ps ! i = fst (minimum_step (?ws ! i))" if "0 < i \<and> i < length ?ws" for i
    using that unfolding md by (simp add: run_month_others)
  have target: "hd ?ps = target_record ?e (hd ?ws)"
    unfolding md using ne by (rule run_month_target)
  have next_ws: "remaining_at ?e 1 (initial_remaining cards) (Suc k) =
              map (\<lambda>(c, p). c\<lparr>rc_balance := balance_after p\<rparr>)
                (filter (\<lambda>(c, p). 0 < balance_after p) (zip ?ws ?ps))"
    unfolding md remaining_at_Suc by (rule run_month_remaining)
  show ?thesis
    unfolding Let_def
    using sorted stable ne len lines others next_ws
    by (simp only: target target_record_def extra_applied_to_def) blast
qed

theorem snowball_targeting_witness:
  "create_payment_schedule example_cards 36 = Inr example_result \<and>
   (1::nat) < length (schedule example_result) \<and>
   remaining_at (extra_payment example_cards 36) 1 (initial_remaining example_cards) 1 =
     [\<lparr>rc_name = ''A'', rc_balance = 19, rc_minimum = 10, rc_apr = 0, rc_monthly_rate = 0\<rparr>,
      \<lparr>rc_name = ''B'', rc_balance = 6, rc_minimum = 25, rc_apr = 0, rc_monthly_rate = 0\<rparr>] \<and>
   payment (hd (payments (schedule example_result ! 1))) = 10 + 1 \<and>
   payments (schedule example_result ! 1) ! 1 =
     fst (minimum_step
       \<lparr>rc_name = ''B'', rc_balance = 6, rc_minimum = 25, rc_apr = 0, rc_monthly_rate = 0\<rparr>) \<and>
   remaining_at (extra_payment example_cards 36) 1 (initial_remaining example_cards) (Suc 1) =
     [\<lparr>rc_name = ''A'', rc_balance = 8, rc_minimum = 10, rc_apr = 0, rc_monthly_rate = 0\<rparr>]"
proof -
  let ?A = "\<lparr>rc_name = ''A'', rc_balance = 19, rc_minimum = 10, rc_apr = 0, rc_monthly_rate = 0\<rparr>"
  let ?B = "\<lparr>rc_name = ''B'', rc_balance = 6, rc_minimum = 25, rc_apr = 0, rc_monthly_rate = 0\<rparr>"
  let ?ps = "payments (schedule example_result ! 1)"
  have len: "(1::nat) < length (schedule example_result)"
    by (simp add: example_result_def)
  have e: "extra_payment example_cards 36 = 1"
    by (simp add: example_cards_def eval_defs)
  have ws: "remaining_at 1 1 (initial_remaining example_cards) 1 = [?A, ?B]"
    by (simp add: example_cards_def eval_defs)
  note t = snowball_targeting [OF example_schedule len, unfolded Let_def e ws]
  from t have "hd ?ps = (fst (minimum_step (hd [?A, ?B])))
      \<lparr>payment := payment (fst (minimum_step (hd [?A, ?B]))) +
          (if (0::real) < 1 \<and> 0 < rc_balance (snd (minimum_step (hd [?A, ?B])))
           then min 1 (rc_balance (snd (minimum_step (hd [?A, ?B])))) else 0),
       principal := principal (fst (minimum_step (hd [?A, ?B]))) +
          (if (0::real) < 1 \<and> 0 < rc_balance (snd (minimum_step (hd [?A, ?B])))
           then min 1 (rc_balance (snd (minimum_step (hd [?A, ?B])))) else 0),
       balance_after := rc_balance (snd (minimum_step (hd [?A, ?B]))) -
          (if (0::real) < 1 \<and> 0 < rc_balance (snd (minimum_step (hd [?A, ?B])))
           then min 1 (rc_balance (snd (minimum_step (hd [?A, ?B])))) else 0)\<rparr>"
    by blast
  then have target: "payment (hd ?ps) = 10 + 1"
    by (simp add: minimum_step_def calculate_interest_def Let_def)
  from t have "\<forall>i. 0 < i \<and> i < length [?A, ?B] \<longrightarrow> ?ps ! i = fst (minimum_step ([?A, ?B] ! i))"
    by blast
  then have other: "?ps ! 1 = fst (minimum_step ?B)"
    by simp
  from t have "remaining_at 1 1 (initial_remaining example_cards) (Suc 1) =
      map (\<lambda>(c, p). c\<lparr>rc_balance := balance_after p\<rparr>)
        (filter (\<lambda>(c, p). 0 < balance_after p) (zip [?A, ?B] ?ps))"
    by blast
  then have next_ws: "remaining_at 1 1 (initial_remaining example_cards) (Suc 1) =
      [\<lparr>rc_name = ''A'', rc_balance = 8, rc_minimum = 10, rc_apr = 0, rc_monthly_rate = 0\<rparr>]"
    by (simp add: example_result_def)
  from example_schedule len ws target other next_ws show ?thesis
    unfolding e by (intro conjI)
qed

text \<open>
  Claim C2. One card with balance 100, minimum payment 60 and no interest, with a budget of
  60: the second month records the full minimum payment of 60 against a balance of 40, so
  the total paid is 120 while the interest is 0 and the initial balance is 100.
\<close>

theorem conservation_final_minimum:
  "create_payment_schedule [CreditCard_init ''A'' 100 60 ''15th'' 0 0 ''''] 60 =
     Inr \<lparr>schedule =
            [\<lparr>month = 1,
              payments = [\<lparr>card = ''A'', payment = 60, interest = 0, principal = 60,
                           balance_before = 100, balance_after = 40\<rparr>],
              balances_after = [(''A'', 40)], total_paid = 60, interest_paid = 0\<rparr>,
             \<lparr>month = 2,
              payments = [\<lparr>card = ''A'', payment = 60, interest = 0, principal = 60,
                           balance_before = 40, balance_after = 0\<rparr>],
              balances_after = [(''A'', 0)], total_paid = 60, interest_paid = 0\<rparr>],
          total_months = 2, total_interest_paid = 0, total_amount_paid = 120\<rparr> \<and>
   sum_list (map balance
     (filter (\<lambda>c. 0 < balance c) [CreditCard_init ''A'' 100 60 ''15th'' 0 0 ''''])) = 100"
  by (simp add: create_payment_schedule_def payoff_loop.simps eval_defs)



text \<open>
  Claim C4. One card with balance 1000, minimum payment 1 and no interest, with a budget of
  1: the card is paid off by the 1000th pass of the loop (one card remains after 999 passes,
  none after 1000), and the result is the error.
\<close>

theorem runaway_at_1000_months:
  "create_payment_schedule [CreditCard_init ''S'' 1000 1 ''15th'' 0 0 ''''] 1 = Inl RunawaySchedule \<and>
   remaining_at (extra_payment [CreditCard_init ''S'' 1000 1 ''15th'' 0 0 ''''] 1) 1
     (initial_remaining [CreditCard_init ''S'' 1000 1 ''15th'' 0 0 '''']) 1000 = [] \<and>
   remaining_at (extra_payment [CreditCard_init ''S'' 1000 1 ''15th'' 0 0 ''''] 1) 1
     (initial_remaining [CreditCard_init ''S'' 1000 1 ''15th'' 0 0 '''']) 999 = [slow_card 1]"
proof -
  let ?cs = "[CreditCard_init ''S'' 1000 1 ''15th'' 0 0 '''']"
  have rem: "initial_remaining ?cs = [slow_card (Suc 999)]"
    by (simp add: initial_remaining_def cards_sorted_def working_copy_def CreditCard_init_def
        slow_card_def)
  have tm: "total_minimums ?cs = 1"
    by (simp add: total_minimums_def cards_sorted_def CreditCard_init_def)
  then have e: "extra_payment ?cs 1 = 0" by (simp add: extra_payment_def)
  have "create_payment_schedule ?cs 1 = Inl RunawaySchedule"
    unfolding runaway_iff e rem remaining_at_slow_card using tm by simp
  moreover have "remaining_at 0 1 [slow_card (Suc 999)] 1000 = []"
    unfolding remaining_at_slow_card by simp
  moreover have "remaining_at 0 1 [slow_card (Suc 999)] 999 = [slow_card 1]"
    unfolding remaining_at_slow_card by simp
  ultimately show ?thesis unfolding e rem by simp
qed

text \<open>
  Claim C5. In a computed schedule no \<open>balance_after\<close> is negative or above the
  \<open>balance_before\<close> of its record. An account recorded at position \<open>i\<close> of period
  \<open>k\<close> with a positive \<open>balance_after\<close> is recorded in period \<open>k + 1\<close> at the position
  given by the number of accounts before it that are still unpaid, and its
  \<open>balance_after\<close> there is not larger.
\<close>

theorem balances_non_increasing:
  assumes "create_payment_schedule cards b = Inr r"
  shows "(\<forall>md\<in>set (schedule r). \<forall>p\<in>set (payments md).
            0 \<le> balance_after p \<and> balance_after p \<le> balance_before p) \<and>
         (\<forall>k i. Suc k < length (schedule r) \<longrightarrow> i < length (payments (schedule r ! k)) \<longrightarrow>
            0 < balance_after (payments (schedule r ! k) ! i) \<longrightarrow>
            (let j = length (filter (\<lambda>p. 0 < balance_after p)
                               (take i (payments (schedule r ! k))))
             in j < length (payments (schedule r ! Suc k)) \<and>
                card (payments (schedule r ! Suc k) ! j) = card (payments (schedule r ! k) ! i) \<and>
                balance_before (payments (schedule r ! Suc k) ! j) =
                  balance_after (payments (schedule r ! k) ! i) \<and>
                balance_after (payments (schedule r ! Suc k) ! j) \<le>
                  balance_after (payments (schedule r ! k) ! i)))"
proof (intro conjI ballI allI impI)
  fix md p assume "md \<in> set (schedule r)" "p \<in> set (payments md)"
  with schedule_records [OF assms] have "record_ok p" "0 < balance_before p" by blast+
  then show "0 \<le> balance_after p" "balance_after p \<le> balance_before p"
    using record_ok_le by (simp_all add: record_ok_def)
next
  fix k i
  assume k: "Suc k < length (schedule r)"
    and i: "i < length (payments (schedule r ! k))"
    and pos: "0 < balance_after (payments (schedule r ! k) ! i)"
  let ?P = "payments (schedule r ! k)" and ?Q = "payments (schedule r ! Suc k)"
  let ?L = "map (\<lambda>p. (card p, balance_after p)) ?P"
  let ?j = "length (filter (\<lambda>p. 0 < balance_after p) (take i ?P))"
  have link: "map (\<lambda>p. (card p, balance_before p)) ?Q = filter (\<lambda>(n, b). 0 < b) ?L"
    using assms k by (rule schedule_linked)
  have j: "length (filter (\<lambda>(n, b). 0 < b) (take i ?L)) = ?j"
    by (simp add: take_map filter_map comp_def)
  from i pos have "i < length ?L" "(\<lambda>(n, b). 0 < b) (?L ! i)" by simp_all
  from filter_nth_survivor [where P = "\<lambda>(n, b). 0 < b" and xs = ?L and i = i, OF this]
  have lt: "?j < length (filter (\<lambda>(n, b). 0 < b) ?L)"
    and nth: "filter (\<lambda>(n, b). 0 < b) ?L ! ?j = ?L ! i"
    by (simp_all only: j)
  from lt have jlen: "?j < length ?Q"
    by (simp only: link [symmetric] length_map)
  from nth have "map (\<lambda>p. (card p, balance_before p)) ?Q ! ?j = ?L ! i"
    by (simp only: link)
  with jlen i have same: "card (?Q ! ?j) = card (?P ! i)"
    "balance_before (?Q ! ?j) = balance_after (?P ! i)"
    by simp_all
  from jlen k have "?Q ! ?j \<in> set ?Q" "schedule r ! Suc k \<in> set (schedule r)" by simp_all
  with schedule_records [OF assms] have "record_ok (?Q ! ?j)" by blast
  with same(2) pos have "balance_after (?Q ! ?j) \<le> balance_after (?P ! i)"
    using record_ok_le [of "?Q ! ?j"] by simp
  with jlen same
  show "let j = ?j in j < length ?Q \<and> card (?Q ! j) = card (?P ! i) \<and>
          balance_before (?Q ! j) = balance_after (?P ! i) \<and>
          balance_after (?Q ! j) \<le> balance_after (?P ! i)"
    by (simp add: Let_def)
qed

theorem balances_non_increasing_witness:
  "create_payment_schedule example_cards 36 = Inr example_result \<and>
   balance_after (payments (schedule example_result ! 0) ! 0) = 19 \<and>
   balance_after (payments (schedule example_result ! 1) ! 0) = 8 \<and>
   balance_after (payments (schedule example_result ! 2) ! 0) = 0 \<and>
   card (payments (schedule example_result ! 2) ! 0) = card (payments (schedule example_result ! 0) ! 0)"
  using balances_non_increasing [OF example_schedule] example_schedule
  by (simp add: example_result_def)

text \<open>
  Claim C6. In the minimum-payment pass over the remaining cards, a card of positive balance
  whose minimum payment is below the interest on its balance gets a record whose payment
  and interest are both that interest, whose principal is 0 and whose balance after is the
  balance before; the card itself is unchanged.
\<close>

theorem minimum_below_interest:
  assumes "i < length remaining_cards"
    and "0 < rc_balance (remaining_cards ! i)"
    and "rc_minimum (remaining_cards ! i) <
           calculate_interest (rc_balance (remaining_cards ! i)) (rc_monthly_rate (remaining_cards ! i))"
  shows "payments (snd (apply_minimums remaining_cards md)) ! (length (payments md) + i) =
           \<lparr>card = rc_name (remaining_cards ! i),
            payment = rc_balance (remaining_cards ! i) * rc_monthly_rate (remaining_cards ! i),
            interest = rc_balance (remaining_cards ! i) * rc_monthly_rate (remaining_cards ! i),
            principal = 0,
            balance_before = rc_balance (remaining_cards ! i),
            balance_after = rc_balance (remaining_cards ! i)\<rparr> \<and>
         fst (apply_minimums remaining_cards md) ! i = remaining_cards ! i"
proof -
  let ?c = "remaining_cards ! i"
  from assms(2,3) have "minimum_step ?c =
      (\<lparr>card = rc_name ?c, payment = rc_balance ?c * rc_monthly_rate ?c,
        interest = rc_balance ?c * rc_monthly_rate ?c, principal = 0,
        balance_before = rc_balance ?c, balance_after = rc_balance ?c\<rparr>, ?c)"
    by (simp add: minimum_step_def calculate_interest_def Let_def)
  with assms(1) show ?thesis
    by (simp add: apply_minimums_eq nth_append)
qed

theorem minimum_below_interest_witness:
  "(0::nat) < length [slow_card 7, \<lparr>rc_name = ''H'', rc_balance = 1200, rc_minimum = 10,
                                    rc_apr = 24, rc_monthly_rate = 0.02\<rparr>] - 1 \<and>
   payments (snd (apply_minimums
       [slow_card 7, \<lparr>rc_name = ''H'', rc_balance = 1200, rc_minimum = 10, rc_apr = 24,
                      rc_monthly_rate = 0.02\<rparr>]
       \<lparr>month = 1, payments = [], balances_after = [], total_paid = 0, interest_paid = 0\<rparr>)) ! 1 =
     \<lparr>card = ''H'', payment = 24, interest = 24, principal = 0, balance_before = 1200,
      balance_after = 1200\<rparr>"
  using minimum_below_interest [of 1 "[slow_card 7, \<lparr>rc_name = ''H'', rc_balance = 1200,
      rc_minimum = 10, rc_apr = 24, rc_monthly_rate = 0.02\<rparr>]"
      "\<lparr>month = 1, payments = [], balances_after = [], total_paid = 0, interest_paid = 0\<rparr>"]
  by (simp add: calculate_interest_def)

text \<open>
  Claim C7. For a single card with balance 500, minimum payment 25 and APR 18 and a budget
  of 1000, whatever its name, due date, credit limit and notes, the result is a success with
  one period and a total paid of 507.50: the 500 of principal and 7.50 of interest. The
  payment is 507.50, not the budget.
\<close>

theorem large_extra_payment:
  "create_payment_schedule [CreditCard_init n 500 25 d 18 l t] 1000 =
     Inr \<lparr>schedule =
            [\<lparr>month = 1,
              payments = [\<lparr>card = n, payment = 507.5, interest = 7.5, principal = 500,
                           balance_before = 500, balance_after = 0\<rparr>],
              balances_after = [(n, 0)], total_paid = 507.5, interest_paid = 7.5\<rparr>],
          total_months = 1, total_interest_paid = 7.5, total_amount_paid = 507.5\<rparr>"
  by (simp add: create_payment_schedule_def payoff_loop.simps eval_defs)

text \<open>
  Claim C8. Without any card of positive balance the total of the minimum payments is 0, and
  the budget check comes first: a negative budget gives the budget error, not the empty
  schedule.
\<close>

theorem no_positive_balance_counterexample:
  "create_payment_schedule [] (- 1) = Inl (BudgetBelowMinimum (- 1) 0)"
  by (simp add: create_payment_schedule_def total_minimums_def cards_sorted_def)

text \<open>
  Claim C8, amended. When no card has a positive balance and the budget is not negative, the
  result is a success with an empty schedule, zero months, zero interest and zero paid.
\<close>

theorem no_positive_balance:
  assumes "\<forall>c\<in>set cards. \<not> 0 < balance c" and "0 \<le> b"
  shows "create_payment_schedule cards b =
           Inr \<lparr>schedule = [], total_months = 0, total_interest_paid = 0,
                total_amount_paid = 0\<rparr>"
proof -
  from assms(1) have "filter (\<lambda>c. 0 < balance c) cards = []"
    by (simp add: filter_empty_conv)
  then have "cards_sorted cards = []" by (simp add: cards_sorted_def)
  with assms(2) show ?thesis
    by (simp add: create_payment_schedule_def total_minimums_def initial_remaining_def
        payoff_loop.simps)
qed

theorem no_positive_balance_witness:
  "balance (CreditCard_init ''Zero 1'' 0 0 ''15th'' 18 0 '''') = 0 \<and>
   balance (CreditCard_init ''Zero 2'' 0 0 ''28th'' 20 0 '''') = 0 \<and>
   (0::real) \<le> 100 \<and>
   create_payment_schedule [CreditCard_init ''Zero 1'' 0 0 ''15th'' 18 0 '''',
                            CreditCard_init ''Zero 2'' 0 0 ''28th'' 20 0 ''''] 100 =
     Inr \<lparr>schedule = [], total_months = 0, total_interest_paid = 0, total_amount_paid = 0\<rparr>"
proof -
  have z: "balance (CreditCard_init ''Zero 1'' 0 0 ''15th'' 18 0 '''') = 0"
    "balance (CreditCard_init ''Zero 2'' 0 0 ''28th'' 20 0 '''') = 0"
    by (simp_all add: CreditCard_init_def)
  then have h: "\<forall>c\<in>set [CreditCard_init ''Zero 1'' 0 0 ''15th'' 18 0 '''',
               CreditCard_init ''Zero 2'' 0 0 ''28th'' 20 0 '''']. \<not> 0 < balance c"
    by simp
  have b: "(0::real) \<le> 100" by simp
  from no_positive_balance [OF h b] z show ?thesis by simp
qed

text \<open>
  Claim C9. When every address of \<^verbatim>\<open>cards\<close> holds a \<^verbatim>\<open>CreditCard\<close>, the run over the store
  returns, its result is the one computed from the values of these cards, every object of
  the store before the run is the same after it, and so is every input card read through
  its address: the run writes only to the dictionaries it has allocated itself.
\<close>

theorem input_records_unmodified:
  assumes "map (get_card s) cards = map Some cs"
  shows "\<exists>s'. st_create_payment_schedule s cards b = Some (s', create_payment_schedule cs b) \<and>
              length s \<le> length s' \<and> (\<forall>x<length s. s' ! x = s ! x) \<and>
              map (get_card s') cards = map Some cs"
proof -
  from st_create_payment_schedule_correct [OF assms, of b] obtain s'
    where run: "st_create_payment_schedule s cards b = Some (s', create_payment_schedule cs b)"
      and len: "length s \<le> length s'" and frame: "\<forall>x<length s. s' ! x = s ! x"
    by blast
  have "get_card s' a = get_card s a" if "a \<in> set cards" for a
  proof -
    from that assms have "get_card s a \<noteq> None"
      by (metis (no_types, lifting) in_set_conv_nth length_map nth_map option.distinct(1))
    then have "a < length s" by (simp add: get_card_def split: if_splits)
    with len frame show ?thesis by (simp add: get_card_def)
  qed
  then have "map (get_card s') cards = map (get_card s) cards" by simp
  with run len frame assms show ?thesis by auto
qed

theorem input_records_unmodified_witness:
  "map (get_card (Dict (slow_card 3) # map Card example_cards)) [1, 2] = map Some example_cards \<and>
   (\<exists>s'. st_create_payment_schedule (Dict (slow_card 3) # map Card example_cards) [1, 2] 36 =
            Some (s', Inr example_result) \<and>
          take 3 s' = Dict (slow_card 3) # map Card example_cards)"
proof -
  let ?s = "Dict (slow_card 3) # map Card example_cards"
  have h: "map (get_card ?s) [1, 2] = map Some example_cards"
    by (simp add: get_card_def example_cards_def)
  from input_records_unmodified [OF h, of 36] obtain s'
    where run: "st_create_payment_schedule ?s [1, 2] 36 = Some (s', Inr example_result)"
      and len: "length ?s \<le> length s'" and frame: "\<forall>x<length ?s. s' ! x = ?s ! x"
    unfolding example_schedule by blast
  have l3: "length ?s = 3" by (simp add: example_cards_def)
  have "take 3 s' = ?s"
  proof (rule nth_equalityI)
    show "length (take 3 s') = length ?s" using len l3 by simp
  next
    fix i assume "i < length (take 3 s')"
    with len l3 have "i < length ?s" by simp
    with frame l3 show "take 3 s' ! i = ?s ! i" by simp
  qed
  with run h show ?thesis by blast
qed



end
